theory Spec2Isabelle
  imports Complex_Main
begin

section \<open>The slime simulation of slime.py\<close>

text \<open>
  The simulation core of \<^verbatim>\<open>SlimeSimulation.construct\<close>: agents that move over a
  shared grid, deposit trail, sense the grid and steer, and a grid that is blurred and
  evaporated after every pass over the agents.

  Modelling decisions:
  \<^item> the local variables of \<^verbatim>\<open>construct\<close> that the nested functions close over
    (lines 12 to 24) are the fields of the record \<open>config\<close>; \<open>source_config\<close> holds
    the values written in the source;
  \<^item> a Python \<^verbatim>\<open>float\<close> is a \<open>real\<close>: arithmetic is exact, rounding is not
    modelled; a Python \<^verbatim>\<open>int\<close> is an \<open>int\<close>;
  \<^item> the array \<^verbatim>\<open>DrawMap\<close> of shape (width, height) is a list of \<open>width\<close> rows of
    \<open>height\<close> reals; an index out of range raises \<open>IndexError\<close>, a negative index
    counts from the end, as in NumPy;
  \<^item> NumPy's global generator is an explicit state: the sequence of the draws it will
    return and the number of draws taken so far;
  \<^item> \<^verbatim>\<open>scipy.ndimage.gaussian_filter\<close> is not part of the repository: it is a
    parameter \<open>gf\<close> of the model;
  \<^item> the rendering calls (\<^verbatim>\<open>draw_draw_map\<close>, \<^verbatim>\<open>ImageMobject\<close>, \<^verbatim>\<open>wait\<close>) read the
    grid and do not change the simulation state; they are left out.
\<close>

subsection \<open>Data\<close>

datatype error = ValueError | IndexError | InvalidConfiguration

text \<open>
  \<open>ValueError\<close> is what \<^verbatim>\<open>np.zeros\<close> raises on a negative dimension, \<open>IndexError\<close>
  what indexing an array out of range raises. \<open>InvalidConfiguration\<close> is the error that
  the specification names; no line of the source raises it.
\<close>

record config =
  moveSpeed :: real
  deltaTime :: real
  N :: int
  width :: int
  height :: int
  nrAgents :: int
  evaporateSpeed :: real
  sensorOffsetDst :: real
  sensorSize :: int
  sensorAngleSpacing :: real
  turnSpeed :: real
  diffuseFaktor :: real

type_synonym grid = "real list list"

record agent =
  pos :: "real \<times> real"
  angle :: real

record rng =
  tape :: "nat \<Rightarrow> real"
  cursor :: nat

text \<open>\<^verbatim>\<open>np.random.random()\<close>: the next draw, and the generator advanced by one.\<close>

definition np_random :: "rng \<Rightarrow> real \<times> rng" where
  "np_random g = (tape g (cursor g), g\<lparr>cursor := Suc (cursor g)\<rparr>)"

text \<open>\<^verbatim>\<open>int(x)\<close> and \<^verbatim>\<open>astype(int)\<close>: truncation toward zero.\<close>

definition py_int :: "real \<Rightarrow> int" where
  "py_int x = (if 0 \<le> x then \<lfloor>x\<rfloor> else \<lceil>x\<rceil>)"

text \<open>\<^verbatim>\<open>range(a, b)\<close>.\<close>

definition py_range :: "int \<Rightarrow> int \<Rightarrow> int list" where
  "py_range a b = [a..b - 1]"

definition source_config :: config where
  "source_config =
     \<lparr>moveSpeed = 10, deltaTime = 1 / 10, N = 1000, width = 200,
      height = py_int (200 * 16 / 9), nrAgents = 700, evaporateSpeed = 1 / 10,
      sensorOffsetDst = 5, sensorSize = 4, sensorAngleSpacing = 78 / 100,
      turnSpeed = 5 / 2, diffuseFaktor = 4 / 10\<rparr>"

subsection \<open>Array access\<close>

text \<open>An index into an axis of length \<open>n\<close>.\<close>

definition np_index :: "nat \<Rightarrow> int \<Rightarrow> error + nat" where
  "np_index n i =
     (if 0 \<le> i \<and> i < int n then Inr (nat i)
      else if - int n \<le> i \<and> i < 0 then Inr (nat (i + int n))
      else Inl IndexError)"

text \<open>\<^verbatim>\<open>DrawMap[i, j]\<close>, read.\<close>

definition get2 :: "grid \<Rightarrow> int \<Rightarrow> int \<Rightarrow> error + real" where
  "get2 m i j =
     (case np_index (length m) i of
        Inl e \<Rightarrow> Inl e
      | Inr r \<Rightarrow>
          (case np_index (length (m ! r)) j of
             Inl e \<Rightarrow> Inl e
           | Inr c \<Rightarrow> Inr (m ! r ! c)))"

text \<open>\<^verbatim>\<open>DrawMap[i, j] = v\<close>.\<close>

definition set2 :: "grid \<Rightarrow> int \<Rightarrow> int \<Rightarrow> real \<Rightarrow> error + grid" where
  "set2 m i j v =
     (case np_index (length m) i of
        Inl e \<Rightarrow> Inl e
      | Inr r \<Rightarrow>
          (case np_index (length (m ! r)) j of
             Inl e \<Rightarrow> Inl e
           | Inr c \<Rightarrow> Inr (m[r := (m ! r)[c := v]])))"

text \<open>\<^verbatim>\<open>np.zeros((width, height))\<close>.\<close>

definition np_zeros :: "int \<Rightarrow> int \<Rightarrow> error + grid" where
  "np_zeros w h =
     (if w < 0 \<or> h < 0 then Inl ValueError
      else Inr (replicate (nat w) (replicate (nat h) 0)))"

text \<open>A loop whose body may raise: the first error ends it.\<close>

fun foldE :: "('a \<Rightarrow> 'b \<Rightarrow> error + 'b) \<Rightarrow> 'a list \<Rightarrow> 'b \<Rightarrow> error + 'b" where
  "foldE f [] acc = Inr acc"
| "foldE f (x # xs) acc =
     (case f x acc of Inl e \<Rightarrow> Inl e | Inr acc' \<Rightarrow> foldE f xs acc')"

subsection \<open>sense\<close>

text \<open>
  The sensor centre (lines 91 to 96): the point at distance \<open>sensorOffsetDst\<close> in the
  direction of the sensor, clipped to \<open>[0, width - 1] \<times> [0, height - 1]\<close> and truncated.
\<close>

definition sensorCenter :: "config \<Rightarrow> agent \<Rightarrow> real \<Rightarrow> int \<times> int" where
  "sensorCenter cfg a sensorAngleOffset =
     (let sensorAngle = angle a + sensorAngleOffset;
          cx = fst (pos a) + cos sensorAngle * sensorOffsetDst cfg;
          cy = snd (pos a) + sin sensorAngle * sensorOffsetDst cfg
      in (py_int (min (max cx 0) (of_int (width cfg - 1))),
          py_int (min (max cy 0) (of_int (height cfg - 1)))))"

text \<open>The body of the inner loop (lines 101 to 105).\<close>

definition sense_cell :: "config \<Rightarrow> grid \<Rightarrow> int \<Rightarrow> int \<Rightarrow> real \<Rightarrow> error + real" where
  "sense_cell cfg m px py tot =
     (if 0 \<le> px \<and> px < width cfg \<and> 0 \<le> py \<and> py < height cfg
      then (case get2 m px py of Inl e \<Rightarrow> Inl e | Inr v \<Rightarrow> Inr (tot + v))
      else Inr tot)"

definition sense :: "config \<Rightarrow> grid \<Rightarrow> agent \<Rightarrow> real \<Rightarrow> error + real" where
  "sense cfg m a sensorAngleOffset =
     (let c = sensorCenter cfg a sensorAngleOffset
      in foldE (\<lambda>offsetX tot.
           foldE (\<lambda>offsetY tot. sense_cell cfg m (fst c + offsetX) (snd c + offsetY) tot)
             (py_range (- sensorSize cfg) (sensorSize cfg + 1)) tot)
           (py_range (- sensorSize cfg) (sensorSize cfg + 1)) 0)"

subsection \<open>steer\<close>

text \<open>The branches of lines 122 to 129, on the three weights and the draw.\<close>

definition steer_angle :: "config \<Rightarrow> real \<Rightarrow> real \<Rightarrow> real \<Rightarrow> real \<Rightarrow> real \<Rightarrow> real" where
  "steer_angle cfg weightForward weightLeft weightRight randomSteerStrength ang =
     (if weightForward > weightLeft \<and> weightForward > weightRight then ang + 0
      else if weightForward < weightLeft \<and> weightForward < weightRight
        then ang + (randomSteerStrength - 1 / 2) * 2 * turnSpeed cfg * deltaTime cfg
      else if weightRight > weightLeft
        then ang - randomSteerStrength * turnSpeed cfg * deltaTime cfg
      else if weightLeft > weightRight
        then ang + randomSteerStrength * turnSpeed cfg * deltaTime cfg
      else ang)"

definition steer :: "config \<Rightarrow> grid \<Rightarrow> agent \<Rightarrow> rng \<Rightarrow> error + (agent \<times> rng)" where
  "steer cfg m a g =
     (case sense cfg m a 0 of
        Inl e \<Rightarrow> Inl e
      | Inr weightForward \<Rightarrow>
     (case sense cfg m a (sensorAngleSpacing cfg) of
        Inl e \<Rightarrow> Inl e
      | Inr weightLeft \<Rightarrow>
     (case sense cfg m a (- sensorAngleSpacing cfg) of
        Inl e \<Rightarrow> Inl e
      | Inr weightRight \<Rightarrow>
          (let (randomSteerStrength, g') = np_random g
           in Inr (a\<lparr>angle := steer_angle cfg weightForward weightLeft weightRight
                                randomSteerStrength (angle a)\<rparr>, g')))))"

subsection \<open>update_agent\<close>

text \<open>The tentative position (lines 46 and 47).\<close>

definition newPos :: "config \<Rightarrow> agent \<Rightarrow> real \<times> real" where
  "newPos cfg a =
     (fst (pos a) + cos (angle a) * moveSpeed cfg * deltaTime cfg,
      snd (pos a) + sin (angle a) * moveSpeed cfg * deltaTime cfg)"

definition out_of_bounds :: "config \<Rightarrow> real \<times> real \<Rightarrow> bool" where
  "out_of_bounds cfg p \<longleftrightarrow>
     fst p < 0 \<or> fst p \<ge> of_int (width cfg) \<or> snd p < 0 \<or> snd p \<ge> of_int (height cfg)"

text \<open>
  The move (lines 46 to 55): an agent whose tentative position is off the grid is put
  back on both axes and gets a fresh random angle, which takes one draw.
\<close>

definition move :: "config \<Rightarrow> agent \<Rightarrow> rng \<Rightarrow> agent \<times> rng" where
  "move cfg a g =
     (let p = newPos cfg a
      in if out_of_bounds cfg p
         then (let (r, g') = np_random g
               in (\<lparr>pos = (min (of_int (width cfg) - 1 / 100) (max 0 (fst p)),
                           min (of_int (height cfg) - 1 / 100) (max 0 (snd p))),
                    angle = r * 2 * pi\<rparr>, g'))
         else (a\<lparr>pos := p\<rparr>, g))"

text \<open>The cell of an agent: its position truncated (line 56).\<close>

definition cell :: "agent \<Rightarrow> int \<times> int" where
  "cell a = (py_int (fst (pos a)), py_int (snd (pos a)))"

definition update_agent ::
  "config \<Rightarrow> grid \<Rightarrow> agent \<Rightarrow> rng \<Rightarrow> error + (agent \<times> grid \<times> rng)" where
  "update_agent cfg m a g =
     (let (a1, g1) = move cfg a g
      in case set2 m (fst (cell a1)) (snd (cell a1)) 1 of
           Inl e \<Rightarrow> Inl e
         | Inr m' \<Rightarrow>
             (case steer cfg m' a1 g1 of
                Inl e \<Rightarrow> Inl e
              | Inr (a', g') \<Rightarrow> Inr (a', m', g')))"

subsection \<open>evaporate_map and diffuse\<close>

definition evaporate_cell :: "config \<Rightarrow> int \<Rightarrow> int \<Rightarrow> grid \<Rightarrow> error + grid" where
  "evaporate_cell cfg i j m =
     (case get2 m i j of
        Inl e \<Rightarrow> Inl e
      | Inr v \<Rightarrow> set2 m i j (max 0 (v - evaporateSpeed cfg * deltaTime cfg)))"

definition evaporate_map :: "config \<Rightarrow> grid \<Rightarrow> error + grid" where
  "evaporate_map cfg m =
     foldE (\<lambda>i m. foldE (\<lambda>j m. evaporate_cell cfg i j m) (py_range 0 (height cfg)) m)
       (py_range 0 (width cfg)) m"

definition diffuse :: "(real \<Rightarrow> grid \<Rightarrow> grid) \<Rightarrow> config \<Rightarrow> grid \<Rightarrow> grid" where
  "diffuse gf cfg m = gf (diffuseFaktor cfg) m"

subsection \<open>The main loop\<close>

text \<open>The pass over the agents (lines 164 and 165), in the order of the list.\<close>

fun update_agents ::
  "config \<Rightarrow> grid \<Rightarrow> agent list \<Rightarrow> rng \<Rightarrow> error + (agent list \<times> grid \<times> rng)" where
  "update_agents cfg m [] g = Inr ([], m, g)"
| "update_agents cfg m (a # as) g =
     (case update_agent cfg m a g of
        Inl e \<Rightarrow> Inl e
      | Inr (a', m', g') \<Rightarrow>
          (case update_agents cfg m' as g' of
             Inl e \<Rightarrow> Inl e
           | Inr (as', m'', g'') \<Rightarrow> Inr (a' # as', m'', g'')))"

text \<open>One iteration of the main loop (lines 164 to 167).\<close>

definition run_step ::
  "(real \<Rightarrow> grid \<Rightarrow> grid) \<Rightarrow> config \<Rightarrow> agent list \<times> grid \<times> rng
     \<Rightarrow> error + (agent list \<times> grid \<times> rng)" where
  "run_step gf cfg s =
     (case s of (as, m, g) \<Rightarrow>
        (case update_agents cfg m as g of
           Inl e \<Rightarrow> Inl e
         | Inr (as', m1, g') \<Rightarrow>
             (case evaporate_map cfg (diffuse gf cfg m1) of
                Inl e \<Rightarrow> Inl e
              | Inr m2 \<Rightarrow> Inr (as', m2, g'))))"

text \<open>
  \<open>k\<close> iterations of the main loop: the states after each iteration, oldest first.
\<close>

fun run_steps ::
  "(real \<Rightarrow> grid \<Rightarrow> grid) \<Rightarrow> config \<Rightarrow> nat \<Rightarrow> agent list \<times> grid \<times> rng
     \<Rightarrow> error + (agent list \<times> grid \<times> rng) list" where
  "run_steps gf cfg 0 s = Inr []"
| "run_steps gf cfg (Suc k) s =
     (case run_step gf cfg s of
        Inl e \<Rightarrow> Inl e
      | Inr s' \<Rightarrow>
          (case run_steps gf cfg k s' of
             Inl e \<Rightarrow> Inl e
           | Inr ss \<Rightarrow> Inr (s' # ss)))"

text \<open>The agents of lines 153 and 154: three draws each, x, y and angle.\<close>

fun init_agents :: "config \<Rightarrow> nat \<Rightarrow> rng \<Rightarrow> agent list \<times> rng" where
  "init_agents cfg 0 g = ([], g)"
| "init_agents cfg (Suc k) g =
     (let (rx, g1) = np_random g;
          (ry, g2) = np_random g1;
          (ra, g3) = np_random g2;
          (as, g') = init_agents cfg k g3
      in (\<lparr>pos = (rx * of_int (width cfg), ry * of_int (height cfg)),
           angle = ra * 2 * pi\<rparr> # as, g'))"

text \<open>
  Everything before the main loop: the grid of line 17 and the agents.
  \<^verbatim>\<open>range(nrAgents)\<close> is empty when \<open>nrAgents\<close> is not positive.
\<close>

definition initialize :: "config \<Rightarrow> rng \<Rightarrow> error + (agent list \<times> grid \<times> rng)" where
  "initialize cfg g =
     (case np_zeros (width cfg) (height cfg) of
        Inl e \<Rightarrow> Inl e
      | Inr m \<Rightarrow>
          (let (as, g') = init_agents cfg (nat (nrAgents cfg)) g
           in Inr (as, m, g')))"

text \<open>\<^verbatim>\<open>construct\<close>: the states after each of the \<open>N\<close> iterations.\<close>

definition construct ::
  "(real \<Rightarrow> grid \<Rightarrow> grid) \<Rightarrow> config \<Rightarrow> rng \<Rightarrow> error + (agent list \<times> grid \<times> rng) list" where
  "construct gf cfg g =
     (case initialize cfg g of
        Inl e \<Rightarrow> Inl e
      | Inr s \<Rightarrow> run_steps gf cfg (nat (N cfg)) s)"

subsection \<open>Notions used in the statements\<close>

text \<open>A grid of the shape that \<^verbatim>\<open>np.zeros((width, height))\<close> creates.\<close>

definition wf_grid :: "config \<Rightarrow> grid \<Rightarrow> bool" where
  "wf_grid cfg m \<longleftrightarrow>
     length m = nat (width cfg) \<and> list_all (\<lambda>row. length row = nat (height cfg)) m"

text \<open>The test of line 104.\<close>

definition in_grid :: "config \<Rightarrow> int \<Rightarrow> int \<Rightarrow> bool" where
  "in_grid cfg i j \<longleftrightarrow> 0 \<le> i \<and> i < width cfg \<and> 0 \<le> j \<and> j < height cfg"

definition cell_value :: "config \<Rightarrow> grid \<Rightarrow> int \<Rightarrow> int \<Rightarrow> real" where
  "cell_value cfg m i j = (if in_grid cfg i j then m ! nat i ! nat j else 0)"

text \<open>
  The sum over the square window of half-size \<open>sensorSize\<close> around the cell \<open>c\<close>, where a
  cell of the window that is off the grid counts for nothing.
\<close>

definition window_sum :: "config \<Rightarrow> grid \<Rightarrow> int \<times> int \<Rightarrow> real" where
  "window_sum cfg m c =
     (\<Sum>ox\<in>{- sensorSize cfg..sensorSize cfg}. \<Sum>oy\<in>{- sensorSize cfg..sensorSize cfg}.
        cell_value cfg m (fst c + ox) (snd c + oy))"

text \<open>What line 67 assigns to a cell of value \<open>v\<close>.\<close>

definition evaporated :: "config \<Rightarrow> real \<Rightarrow> real" where
  "evaporated cfg v = max 0 (v - evaporateSpeed cfg * deltaTime cfg)"

text \<open>What lines 51 and 52 assign to the position.\<close>

definition clamped :: "config \<Rightarrow> real \<times> real \<Rightarrow> real \<times> real" where
  "clamped cfg p =
     (min (of_int (width cfg) - 1 / 100) (max 0 (fst p)),
      min (of_int (height cfg) - 1 / 100) (max 0 (snd p)))"

text \<open>
  What the model asks of \<^verbatim>\<open>gaussian_filter\<close>: the array it returns has the shape of the
  array it is given.
\<close>

definition keeps_shape :: "(real \<Rightarrow> grid \<Rightarrow> grid) \<Rightarrow> config \<Rightarrow> bool" where
  "keeps_shape gf cfg \<longleftrightarrow> (\<forall>m. wf_grid cfg m \<longrightarrow> wf_grid cfg (gf (diffuseFaktor cfg) m))"

text \<open>
  Two generators that stand at the same place and return the same values for the draws
  before draw \<open>k\<close>.
\<close>

definition agree :: "nat \<Rightarrow> rng \<Rightarrow> rng \<Rightarrow> bool" where
  "agree k g1 g2 \<longleftrightarrow> cursor g1 = cursor g2 \<and> (\<forall>i<k. tape g1 i = tape g2 i)"

text \<open>
  What a run shows of its states: the agents, with their positions and headings, and the
  grid after each iteration; or the error that ended it.
\<close>

definition snapshots ::
  "error + (agent list \<times> grid \<times> rng) list \<Rightarrow> error + (agent list \<times> grid) list" where
  "snapshots r = map_sum id (map (\<lambda>(as, m, g). (as, m))) r"


text \<open>
  The state after iteration \<open>i + 1\<close> of a run that started with the agents \<open>as\<close> and
  the generator \<open>g\<close>: as many agents, the same sequence of draws, and between one and
  two draws taken for each agent in each iteration.
\<close>

definition drawn :: "agent list \<Rightarrow> rng \<Rightarrow> nat \<Rightarrow> agent list \<times> grid \<times> rng \<Rightarrow> bool" where
  "drawn as g i s \<longleftrightarrow>
     length (fst s) = length as \<and> tape (snd (snd s)) = tape g \<and>
     cursor g + Suc i * length as \<le> cursor (snd (snd s)) \<and>
     cursor (snd (snd s)) \<le> cursor g + 2 * Suc i * length as"

subsection \<open>Concrete inputs\<close>

text \<open>
  A grid of three by three cells with sensors one cell wide, one cell away and at right
  angles, so that every quantity of a run can be computed by hand.
\<close>

definition small_config :: config where
  "small_config =
     \<lparr>moveSpeed = 10, deltaTime = 1 / 10, N = 2, width = 3, height = 3, nrAgents = 2,
      evaporateSpeed = 1 / 10, sensorOffsetDst = 1, sensorSize = 1,
      sensorAngleSpacing = pi / 2, turnSpeed = 5 / 2, diffuseFaktor = 4 / 10\<rparr>"

definition half_rng :: rng where
  "half_rng = \<lparr>tape = (\<lambda>i. 1 / 2), cursor = 0\<rparr>"

definition zero_grid :: grid where
  "zero_grid = [[0, 0, 0], [0, 0, 0], [0, 0, 0]]"

definition ones_grid :: grid where
  "ones_grid = [[1, 1, 1], [1, 1, 1], [1, 1, 1]]"



text \<open>A configuration with no agent, and negative rates and sensor size.\<close>

definition unchecked_config :: config where
  "unchecked_config =
     \<lparr>moveSpeed = 10, deltaTime = 1 / 10, N = 2, width = 3, height = 3, nrAgents = 0,
      evaporateSpeed = - 1, sensorOffsetDst = 1, sensorSize = - 1,
      sensorAngleSpacing = pi / 2, turnSpeed = - 1, diffuseFaktor = - 1\<rparr>"

text \<open>Generators, a blur that changes nothing, and a run of one agent for one iteration.\<close>

definition zero_rng :: rng where
  "zero_rng = \<lparr>tape = (\<lambda>i. 0), cursor = 0\<rparr>"

definition late_rng :: rng where
  "late_rng = \<lparr>tape = (\<lambda>i. if i = 0 then 1 / 2 else 0), cursor = 0\<rparr>"

definition split_rng :: rng where
  "split_rng = \<lparr>tape = (\<lambda>i. if i < 5 then 0 else 1), cursor = 0\<rparr>"

definition no_blur :: "real \<Rightarrow> grid \<Rightarrow> grid" where
  "no_blur sigma m = m"

definition one_step_config :: config where
  "one_step_config = small_config\<lparr>N := 1, nrAgents := 1\<rparr>"

section \<open>Properties\<close>

subsection \<open>Array access\<close>

lemma np_index_lt: "np_index n i = Inr r \<Longrightarrow> r < n"
  by (auto simp: np_index_def split: if_splits)

lemma np_index_in: "0 \<le> i \<Longrightarrow> i < int n \<Longrightarrow> np_index n i = Inr (nat i)"
  by (simp add: np_index_def)

lemma set2_InrD:
  assumes "set2 m i j v = Inr m'"
  obtains r c where "np_index (length m) i = Inr r" "np_index (length (m ! r)) j = Inr c"
    "m' = m[r := (m ! r)[c := v]]"
  using assms by (auto simp: set2_def split: sum.splits)

text \<open>A cell that has been written holds the value written, whatever it held before.\<close>

lemma get2_set2_same:
  assumes "set2 m i j v = Inr m'"
  shows "get2 m' i j = Inr v"
proof -
  from assms obtain r c where r: "np_index (length m) i = Inr r"
    and c: "np_index (length (m ! r)) j = Inr c"
    and m': "m' = m[r := (m ! r)[c := v]]"
    by (rule set2_InrD)
  have "r < length m" "c < length (m ! r)"
    using r c by (auto dest: np_index_lt)
  then show ?thesis
    by (simp add: get2_def m' r c)
qed

lemma wf_grid_row: "wf_grid cfg m \<Longrightarrow> r < length m \<Longrightarrow> length (m ! r) = nat (height cfg)"
  by (simp add: wf_grid_def list_all_length)

lemma in_grid_index:
  assumes "wf_grid cfg m" "in_grid cfg i j"
  shows "np_index (length m) i = Inr (nat i)"
    and "np_index (length (m ! nat i)) j = Inr (nat j)"
proof -
  have i: "0 \<le> i" "i < int (length m)"
    using assms by (auto simp: wf_grid_def in_grid_def)
  then show "np_index (length m) i = Inr (nat i)"
    by (rule np_index_in)
  from i have "nat i < length m" by simp
  then have "length (m ! nat i) = nat (height cfg)"
    using assms(1) by (rule wf_grid_row [rotated])
  then have "0 \<le> j" "j < int (length (m ! nat i))"
    using assms(2) by (auto simp: in_grid_def)
  then show "np_index (length (m ! nat i)) j = Inr (nat j)"
    by (rule np_index_in)
qed

lemma get2_wf:
  assumes "wf_grid cfg m" "in_grid cfg i j"
  shows "get2 m i j = Inr (m ! nat i ! nat j)"
  by (simp add: get2_def in_grid_index [OF assms])

lemma set2_wf:
  assumes "wf_grid cfg m" "in_grid cfg i j"
  shows "set2 m i j v = Inr (m[nat i := (m ! nat i)[nat j := v]])"
  by (simp add: set2_def in_grid_index [OF assms])

lemma wf_grid_update:
  assumes "wf_grid cfg m"
  shows "wf_grid cfg (m[r := (m ! r)[c := v]])"
proof (cases "r < length m")
  case True
  with assms show ?thesis
    by (auto simp: wf_grid_def list_all_length nth_list_update)
next
  case False
  with assms show ?thesis by (simp add: list_update_beyond)
qed

lemma nth_update2:
  assumes "r < length m" "c < length (m ! r)"
  shows "m[i := (m ! i)[j := v]] ! r ! c = (if r = i \<and> c = j then v else m ! r ! c)"
proof (cases "r = i")
  case True
  with assms show ?thesis by (simp add: nth_list_update)
next
  case False
  then show ?thesis by simp
qed

lemma set_py_range: "set (py_range a b) = {a..b - 1}"
  by (simp add: py_range_def)

lemma distinct_py_range: "distinct (py_range a b)"
  by (simp add: py_range_def)


lemma sum_list_py_range: "sum_list (map h (py_range a b)) = (\<Sum>x\<in>{a..b - 1}. h x)"
  by (simp add: py_range_def sum_list_distinct_conv_sum_set)

text \<open>Rules that compute the model on the concrete inputs.\<close>

lemmas small_eval =
  small_config_def half_rng_def zero_grid_def ones_grid_def wf_grid_def
  update_agent_def move_def newPos_def out_of_bounds_def cell_def py_int_def set2_def get2_def
  np_index_def steer_def sense_def sensorCenter_def py_range_def upto_rec1 sense_cell_def
  np_random_def steer_angle_def Let_def

subsection \<open>sense\<close>

lemma sense_cell_wf:
  "wf_grid cfg m \<Longrightarrow> sense_cell cfg m px py tot = Inr (tot + cell_value cfg m px py)"
  by (auto simp: sense_cell_def cell_value_def get2_wf in_grid_def)

text \<open>A loop that adds to an accumulator and never raises returns the sum.\<close>

lemma foldE_add:
  assumes "\<And>x t. f x t = Inr (t + h x)"
  shows "foldE f xs t = Inr (t + sum_list (map h xs))"
  by (induction xs arbitrary: t) (simp_all add: assms add.assoc)

lemma sense_wf:
  assumes "wf_grid cfg m"
  shows "sense cfg m a off = Inr (window_sum cfg m (sensorCenter cfg a off))"
proof -
  let ?c = "sensorCenter cfg a off"
  let ?R = "py_range (- sensorSize cfg) (sensorSize cfg + 1)"
  have inner: "foldE (\<lambda>oy t. sense_cell cfg m (fst ?c + ox) (snd ?c + oy) t) ?R t =
      Inr (t + sum_list (map (\<lambda>oy. cell_value cfg m (fst ?c + ox) (snd ?c + oy)) ?R))" for ox t
    by (rule foldE_add) (simp add: sense_cell_wf assms)
  have "sense cfg m a off =
      Inr (0 + sum_list (map (\<lambda>ox. sum_list
             (map (\<lambda>oy. cell_value cfg m (fst ?c + ox) (snd ?c + oy)) ?R)) ?R))"
    unfolding sense_def Let_def by (rule foldE_add) (rule inner)
  then show ?thesis
    by (simp add: sum_list_py_range window_sum_def)
qed




subsection \<open>steer\<close>

lemma steer_wf:
  assumes "wf_grid cfg m"
  shows "steer cfg m a g =
    Inr (a\<lparr>angle := steer_angle cfg (window_sum cfg m (sensorCenter cfg a 0))
                       (window_sum cfg m (sensorCenter cfg a (sensorAngleSpacing cfg)))
                       (window_sum cfg m (sensorCenter cfg a (- sensorAngleSpacing cfg)))
                       (tape g (cursor g)) (angle a)\<rparr>,
         g\<lparr>cursor := Suc (cursor g)\<rparr>)"
  by (simp add: steer_def sense_wf [OF assms] np_random_def)

lemma steer_pos: "steer cfg m a g = Inr (a', g') \<Longrightarrow> pos a' = pos a"
  by (auto simp: steer_def np_random_def split: sum.splits)

lemma steer_cell: "steer cfg m a g = Inr (a', g') \<Longrightarrow> cell a' = cell a"
  by (simp add: cell_def steer_pos)

text \<open>
  C6: when the three sensed values are equal, none of the four tests of lines 122 to 128
  holds, and \<open>steer\<close> returns the agent as it was: the heading is unchanged.
\<close>

theorem steer_tie:
  assumes "sense cfg m a 0 = Inr w"
    and "sense cfg m a (sensorAngleSpacing cfg) = Inr w"
    and "sense cfg m a (- sensorAngleSpacing cfg) = Inr w"
  shows "\<exists>g'. steer cfg m a g = Inr (a, g')"
  using assms by (simp add: steer_def steer_angle_def np_random_def)

theorem steer_tie_witness:
  "sense small_config ones_grid \<lparr>pos = (1, 1), angle = 0\<rparr> 0 = Inr 6 \<and>
   sense small_config ones_grid \<lparr>pos = (1, 1), angle = 0\<rparr> (sensorAngleSpacing small_config)
     = Inr 6 \<and>
   sense small_config ones_grid \<lparr>pos = (1, 1), angle = 0\<rparr> (- sensorAngleSpacing small_config)
     = Inr 6 \<and>
   (\<exists>g'. steer small_config ones_grid \<lparr>pos = (1, 1), angle = 0\<rparr> half_rng
      = Inr (\<lparr>pos = (1, 1), angle = 0\<rparr>, g'))"
proof -
  have h: "sense small_config ones_grid \<lparr>pos = (1, 1), angle = 0\<rparr> 0 = Inr 6"
    "sense small_config ones_grid \<lparr>pos = (1, 1), angle = 0\<rparr> (sensorAngleSpacing small_config)
       = Inr 6"
    "sense small_config ones_grid \<lparr>pos = (1, 1), angle = 0\<rparr> (- sensorAngleSpacing small_config)
       = Inr 6"
    by (simp_all add: small_eval)
  show ?thesis
    using h steer_tie [OF h, of half_rng] by simp
qed

subsection \<open>update_agent\<close>

lemma move_pos:
  "pos (fst (move cfg a g)) =
     (if out_of_bounds cfg (newPos cfg a) then clamped cfg (newPos cfg a) else newPos cfg a)"
  by (simp add: move_def Let_def clamped_def split: prod.splits)

lemma clamped_in_bounds:
  assumes "0 < width cfg" "0 < height cfg"
  shows "\<not> out_of_bounds cfg (clamped cfg p)"
proof -
  have "(1::real) \<le> of_int (width cfg)" "(1::real) \<le> of_int (height cfg)"
    using assms by simp_all
  then show ?thesis
    by (auto simp: out_of_bounds_def clamped_def min_def max_def)
qed

lemma move_in_bounds:
  assumes "0 < width cfg" "0 < height cfg"
  shows "\<not> out_of_bounds cfg (pos (fst (move cfg a g)))"
  using clamped_in_bounds [OF assms] by (simp add: move_pos)

lemma cell_in_grid:
  assumes "\<not> out_of_bounds cfg (pos a)"
  shows "in_grid cfg (fst (cell a)) (snd (cell a))"
  using assms
  by (auto simp: out_of_bounds_def in_grid_def cell_def py_int_def floor_less_iff not_le not_less)

lemma update_agent_InrD:
  assumes "update_agent cfg m a g = Inr (a', m', g')"
  shows "set2 m (fst (cell (fst (move cfg a g)))) (snd (cell (fst (move cfg a g)))) 1 = Inr m'"
    and "steer cfg m' (fst (move cfg a g)) (snd (move cfg a g)) = Inr (a', g')"
  using assms by (auto simp: update_agent_def split: prod.splits sum.splits)

lemma update_agent_deposit:
  assumes "update_agent cfg m a g = Inr (a', m', g')"
  shows "set2 m (fst (cell a')) (snd (cell a')) 1 = Inr m'"
  using update_agent_InrD [OF assms] by (simp add: steer_cell)

text \<open>
  On a non-empty grid of the configured shape \<open>update_agent\<close> returns: the cell of the
  moved agent is on the grid, and \<open>steer\<close> reads cells of the grid only.
\<close>

lemma update_agent_wf:
  assumes "wf_grid cfg m" "0 < width cfg" "0 < height cfg"
  shows "\<exists>a' m' g'. update_agent cfg m a g = Inr (a', m', g') \<and> wf_grid cfg m' \<and>
     pos a' = pos (fst (move cfg a g))"
proof -
  let ?a1 = "fst (move cfg a g)" and ?g1 = "snd (move cfg a g)"
  let ?i = "fst (cell ?a1)" and ?j = "snd (cell ?a1)"
  let ?m' = "m[nat ?i := (m ! nat ?i)[nat ?j := 1]]"
  have "in_grid cfg ?i ?j"
    using move_in_bounds [OF assms(2,3)] by (rule cell_in_grid)
  then have dep: "set2 m ?i ?j 1 = Inr ?m'"
    using assms(1) by (simp add: set2_wf)
  have wf': "wf_grid cfg ?m'"
    using assms(1) by (rule wf_grid_update)
  show ?thesis
    by (simp add: update_agent_def split_beta dep steer_wf [OF wf'] wf')
qed

text \<open>
  C1: on a non-empty grid of the configured shape, \<open>update_agent\<close> returns for every
  agent, and the position it leaves satisfies \<open>0 \<le> x < width\<close> and \<open>0 \<le> y < height\<close>.
  A tentative position that is off the grid on either axis is replaced, on both axes, by
  \<open>min (width - 0.01) (max 0 x)\<close> and \<open>min (height - 0.01) (max 0 y)\<close>; a tentative
  position on the grid is kept as it is.
\<close>

theorem update_agent_in_bounds:
  assumes "wf_grid cfg m" "0 < width cfg" "0 < height cfg"
  shows "\<exists>a' m' g'. update_agent cfg m a g = Inr (a', m', g') \<and>
     0 \<le> fst (pos a') \<and> fst (pos a') < of_int (width cfg) \<and>
     0 \<le> snd (pos a') \<and> snd (pos a') < of_int (height cfg) \<and>
     pos a' =
       (if out_of_bounds cfg (newPos cfg a)
        then (min (of_int (width cfg) - 1 / 100) (max 0 (fst (newPos cfg a))),
              min (of_int (height cfg) - 1 / 100) (max 0 (snd (newPos cfg a))))
        else newPos cfg a)"
proof -
  from update_agent_wf [OF assms] obtain a' m' g' where
    u: "update_agent cfg m a g = Inr (a', m', g')" and p: "pos a' = pos (fst (move cfg a g))"
    by blast
  have "\<not> out_of_bounds cfg (pos a')"
    using move_in_bounds [OF assms(2,3)] by (simp add: p)
  then have "0 \<le> fst (pos a') \<and> fst (pos a') < of_int (width cfg) \<and>
     0 \<le> snd (pos a') \<and> snd (pos a') < of_int (height cfg)"
    by (auto simp: out_of_bounds_def)
  moreover have "pos a' =
       (if out_of_bounds cfg (newPos cfg a)
        then (min (of_int (width cfg) - 1 / 100) (max 0 (fst (newPos cfg a))),
              min (of_int (height cfg) - 1 / 100) (max 0 (snd (newPos cfg a))))
        else newPos cfg a)"
    by (simp add: p move_pos clamped_def)
  ultimately show ?thesis using u by blast
qed

theorem update_agent_in_bounds_witness:
  "wf_grid small_config zero_grid \<and> 0 < width small_config \<and> 0 < height small_config \<and>
   (\<exists>a' m' g'. update_agent small_config zero_grid \<lparr>pos = (295 / 100, 1), angle = 0\<rparr> half_rng
        = Inr (a', m', g') \<and> pos a' = (299 / 100, 1))"
proof -
  have h: "wf_grid small_config zero_grid" "0 < width small_config" "0 < height small_config"
    by (simp_all add: small_config_def zero_grid_def wf_grid_def)
  show ?thesis
    using h update_agent_in_bounds [OF h, of "\<lparr>pos = (295 / 100, 1), angle = 0\<rparr>" half_rng]
    by (simp add: newPos_def out_of_bounds_def small_config_def) blast
qed

text \<open>
  C3: the deposit of line 56 assigns 1 to the cell of the agent's final position, the
  position truncated; it does not add to what the cell holds. When a second agent,
  updated after the first, ends in the same cell, the cell holds exactly 1 after the
  first update and exactly 1 after the second.
\<close>

theorem deposit_overwrites:
  assumes "update_agent cfg m a1 g = Inr (a1', m1, g1)"
    and "update_agent cfg m1 a2 g1 = Inr (a2', m2, g2)"
    and "cell a2' = cell a1'"
  shows "cell a1' = (py_int (fst (pos a1')), py_int (snd (pos a1')))
    \<and> set2 m (fst (cell a1')) (snd (cell a1')) 1 = Inr m1
    \<and> get2 m1 (fst (cell a1')) (snd (cell a1')) = Inr 1
    \<and> set2 m1 (fst (cell a1')) (snd (cell a1')) 1 = Inr m2
    \<and> get2 m2 (fst (cell a1')) (snd (cell a1')) = Inr 1"
  using update_agent_deposit [OF assms(1)] update_agent_deposit [OF assms(2)] assms(3)
  by (simp add: get2_set2_same cell_def)

theorem deposit_overwrites_witness:
  "update_agent small_config zero_grid \<lparr>pos = (1 / 2, 1), angle = 0\<rparr> half_rng =
     Inr (\<lparr>pos = (3 / 2, 1), angle = 0\<rparr>, [[0, 0, 0], [0, 1, 0], [0, 0, 0]],
          \<lparr>tape = (\<lambda>i. 1 / 2), cursor = 1\<rparr>) \<and>
   update_agent small_config [[0, 0, 0], [0, 1, 0], [0, 0, 0]]
       \<lparr>pos = (7 / 10, 6 / 5), angle = 0\<rparr> \<lparr>tape = (\<lambda>i. 1 / 2), cursor = 1\<rparr> =
     Inr (\<lparr>pos = (17 / 10, 6 / 5), angle = 0\<rparr>, [[0, 0, 0], [0, 1, 0], [0, 0, 0]],
          \<lparr>tape = (\<lambda>i. 1 / 2), cursor = 2\<rparr>) \<and>
   cell \<lparr>pos = (17 / 10, 6 / 5), angle = 0\<rparr> = cell \<lparr>pos = (3 / 2, 1), angle = 0\<rparr> \<and>
   get2 [[0, 0, 0], [0, 1, 0], [0, 0, 0]] 1 1 = Inr 1"
proof -
  have h1: "update_agent small_config zero_grid \<lparr>pos = (1 / 2, 1), angle = 0\<rparr> half_rng =
     Inr (\<lparr>pos = (3 / 2, 1), angle = 0\<rparr>, [[0, 0, 0], [0, 1, 0], [0, 0, 0]],
          \<lparr>tape = (\<lambda>i. 1 / 2), cursor = 1\<rparr>)"
    by (simp add: small_eval)
  have h2: "update_agent small_config [[0, 0, 0], [0, 1, 0], [0, 0, 0]]
       \<lparr>pos = (7 / 10, 6 / 5), angle = 0\<rparr> \<lparr>tape = (\<lambda>i. 1 / 2), cursor = 1\<rparr> =
     Inr (\<lparr>pos = (17 / 10, 6 / 5), angle = 0\<rparr>, [[0, 0, 0], [0, 1, 0], [0, 0, 0]],
          \<lparr>tape = (\<lambda>i. 1 / 2), cursor = 2\<rparr>)"
    by (simp add: small_eval)
  have h3: "cell \<lparr>pos = (17 / 10, 6 / 5), angle = 0\<rparr> = cell \<lparr>pos = (3 / 2, 1), angle = 0\<rparr>"
    by (simp add: cell_def py_int_def)
  have c: "cell \<lparr>pos = (3 / 2, 1), angle = 0\<rparr> = (1, 1)"
    by (simp add: cell_def py_int_def)
  show ?thesis
    using h1 h2 h3 deposit_overwrites [OF h1 h2 h3] by (simp add: c)
qed

subsection \<open>The draws of an update\<close>

lemma steer_gen: "steer cfg m a g = Inr (a', g') \<Longrightarrow> g' = snd (np_random g)"
  by (auto simp: steer_def split_beta split: sum.splits)

lemma move_gen:
  "snd (move cfg a g) = (if out_of_bounds cfg (newPos cfg a) then snd (np_random g) else g)"
  by (simp add: move_def Let_def split_beta)

text \<open>
  The draws of one \<open>update_agent\<close>: the draw of \<open>steer\<close>, after the draw of the new
  heading when the tentative position is off the grid.
\<close>

lemma update_agent_draws:
  assumes "update_agent cfg m a g = Inr (a', m', g')"
  shows "tape g' = tape g"
    and "cursor g' = cursor g + (if out_of_bounds cfg (newPos cfg a) then 2 else 1)"
proof -
  from update_agent_InrD(2) [OF assms] have "g' = snd (np_random (snd (move cfg a g)))"
    by (rule steer_gen)
  then show "tape g' = tape g"
    and "cursor g' = cursor g + (if out_of_bounds cfg (newPos cfg a) then 2 else 1)"
    by (simp_all add: move_gen np_random_def)
qed

text \<open>
  C10 does not hold as stated: an agent whose tentative position is off the grid takes two
  draws in one update, the new heading of line 53 and the draw of \<open>steer\<close>.
\<close>

theorem draws_per_agent_counterexample:
  "cursor zero_rng = 0 \<and>
   update_agent small_config zero_grid \<lparr>pos = (295 / 100, 1), angle = 0\<rparr> zero_rng =
     Inr (\<lparr>pos = (299 / 100, 1), angle = 0\<rparr>, [[0, 0, 0], [0, 0, 0], [0, 1, 0]],
          \<lparr>tape = tape zero_rng, cursor = 2\<rparr>)"
  by (simp add: zero_rng_def small_eval)

text \<open>
  C10, amended: on a grid of the configured shape \<open>steer\<close> returns with the generator
  advanced by exactly one draw, for every agent and every grid content, so in every
  branch: the draw of line 119 comes before the tests. An update of an agent advances the
  generator by that draw, and by one more when the tentative position is off the grid: by
  one or two draws for each agent in each iteration, whatever the sensed values.
\<close>

theorem draws_per_agent:
  assumes "wf_grid cfg m"
  shows "(\<exists>a'. steer cfg m a g = Inr (a', snd (np_random g))) \<and>
    cursor (snd (np_random g)) = cursor g + 1 \<and> tape (snd (np_random g)) = tape g \<and>
    (0 < width cfg \<and> 0 < height cfg \<longrightarrow>
      (\<exists>a' m' g'. update_agent cfg m a g = Inr (a', m', g') \<and> tape g' = tape g \<and>
         cursor g' = cursor g + (if out_of_bounds cfg (newPos cfg a) then 2 else 1)))"
proof (intro conjI impI)
  show "\<exists>a'. steer cfg m a g = Inr (a', snd (np_random g))"
    by (simp add: steer_wf [OF assms] np_random_def)
  show "cursor (snd (np_random g)) = cursor g + 1" "tape (snd (np_random g)) = tape g"
    by (simp_all add: np_random_def)
next
  assume "0 < width cfg \<and> 0 < height cfg"
  then have "0 < width cfg" "0 < height cfg" by simp_all
  from update_agent_wf [OF assms this] obtain a' m' g' where
    u: "update_agent cfg m a g = Inr (a', m', g')"
    by blast
  from u update_agent_draws [OF u]
  show "\<exists>a' m' g'. update_agent cfg m a g = Inr (a', m', g') \<and> tape g' = tape g \<and>
         cursor g' = cursor g + (if out_of_bounds cfg (newPos cfg a) then 2 else 1)"
    by blast
qed

theorem draws_per_agent_witness:
  "wf_grid small_config ones_grid \<and> 0 < width small_config \<and> 0 < height small_config \<and>
   out_of_bounds small_config (newPos small_config \<lparr>pos = (295 / 100, 1), angle = 0\<rparr>) \<and>
   \<not> out_of_bounds small_config (newPos small_config \<lparr>pos = (1, 1), angle = 0\<rparr>) \<and>
   (\<exists>a'. steer small_config ones_grid \<lparr>pos = (1, 1), angle = 0\<rparr> half_rng =
      Inr (a', \<lparr>tape = tape half_rng, cursor = 1\<rparr>)) \<and>
   (\<exists>a' m' g'. update_agent small_config ones_grid \<lparr>pos = (1, 1), angle = 0\<rparr> half_rng =
      Inr (a', m', g') \<and> cursor g' = 1) \<and>
   (\<exists>a' m' g'. update_agent small_config ones_grid \<lparr>pos = (295 / 100, 1), angle = 0\<rparr> half_rng =
      Inr (a', m', g') \<and> cursor g' = 2)"
proof -
  have h: "wf_grid small_config ones_grid"
    by (simp add: small_config_def ones_grid_def wf_grid_def)
  have p: "0 < width small_config \<and> 0 < height small_config"
    by (simp add: small_config_def)
  have o: "out_of_bounds small_config (newPos small_config \<lparr>pos = (295 / 100, 1), angle = 0\<rparr>)"
    "\<not> out_of_bounds small_config (newPos small_config \<lparr>pos = (1, 1), angle = 0\<rparr>)"
    by (simp_all add: out_of_bounds_def newPos_def small_config_def)
  have c: "cursor half_rng = 0" "snd (np_random half_rng) = \<lparr>tape = tape half_rng, cursor = 1\<rparr>"
    by (simp_all add: half_rng_def np_random_def)
  from draws_per_agent [OF h, of "\<lparr>pos = (1, 1), angle = 0\<rparr>" half_rng] p o(2) c
  have 1: "(\<exists>a'. steer small_config ones_grid \<lparr>pos = (1, 1), angle = 0\<rparr> half_rng =
      Inr (a', \<lparr>tape = tape half_rng, cursor = 1\<rparr>))"
    "(\<exists>a' m' g'. update_agent small_config ones_grid \<lparr>pos = (1, 1), angle = 0\<rparr> half_rng =
      Inr (a', m', g') \<and> cursor g' = 1)"
    by auto
  from draws_per_agent [OF h, of "\<lparr>pos = (295 / 100, 1), angle = 0\<rparr>" half_rng] p o(1) c
  have 2: "(\<exists>a' m' g'. update_agent small_config ones_grid \<lparr>pos = (295 / 100, 1), angle = 0\<rparr> half_rng =
      Inr (a', m', g') \<and> cursor g' = 2)"
    by auto
  show ?thesis
    using h p o 1 2 by simp
qed

subsection \<open>evaporate_map\<close>

lemma evaporate_cell_wf:
  assumes "wf_grid cfg m" "in_grid cfg i j"
  shows "evaporate_cell cfg i j m =
    Inr (m[nat i := (m ! nat i)[nat j := evaporated cfg (m ! nat i ! nat j)]])"
  by (simp add: evaporate_cell_def get2_wf [OF assms] set2_wf [OF assms] evaporated_def)

text \<open>
  The inner loop over the columns \<open>js\<close> of row \<open>i\<close>: it returns, and it has replaced
  the cells of the columns it visited, each once, and no other cell.
\<close>

lemma evaporate_row:
  assumes "wf_grid cfg m" "0 \<le> i" "i < width cfg" "distinct js"
    "\<forall>j\<in>set js. 0 \<le> j \<and> j < height cfg"
  shows "\<exists>m'. foldE (\<lambda>j m. evaporate_cell cfg i j m) js m = Inr m' \<and> wf_grid cfg m' \<and>
    (\<forall>r < nat (width cfg). \<forall>c < nat (height cfg).
       m' ! r ! c = (if r = nat i \<and> int c \<in> set js then evaporated cfg (m ! r ! c) else m ! r ! c))"
  using assms(1,4,5)
proof (induction js arbitrary: m)
  case Nil
  then show ?case by simp
next
  case (Cons j js)
  let ?m1 = "m[nat i := (m ! nat i)[nat j := evaporated cfg (m ! nat i ! nat j)]]"
  have inb: "in_grid cfg i j"
    using Cons.prems assms(2,3) by (simp add: in_grid_def)
  have step: "evaporate_cell cfg i j m = Inr ?m1"
    using Cons.prems(1) inb by (rule evaporate_cell_wf)
  have wf1: "wf_grid cfg ?m1"
    using Cons.prems(1) by (rule wf_grid_update)
  from Cons.IH [OF wf1] Cons.prems obtain m' where
    m': "foldE (\<lambda>j m. evaporate_cell cfg i j m) js ?m1 = Inr m'" "wf_grid cfg m'"
    and cells: "\<And>r c. r < nat (width cfg) \<Longrightarrow> c < nat (height cfg) \<Longrightarrow>
       m' ! r ! c = (if r = nat i \<and> int c \<in> set js then evaporated cfg (?m1 ! r ! c) else ?m1 ! r ! c)"
    by auto
  have one: "?m1 ! r ! c = (if r = nat i \<and> c = nat j then evaporated cfg (m ! r ! c) else m ! r ! c)"
    if "r < nat (width cfg)" "c < nat (height cfg)" for r c
  proof -
    have r: "r < length m" using that Cons.prems(1) by (simp add: wf_grid_def)
    then have "c < length (m ! r)" using that wf_grid_row [OF Cons.prems(1) r] by simp
    with r show ?thesis by (auto simp: nth_update2)
  qed
  have "m' ! r ! c = (if r = nat i \<and> int c \<in> set (j # js) then evaporated cfg (m ! r ! c) else m ! r ! c)"
    if "r < nat (width cfg)" "c < nat (height cfg)" for r c
  proof -
    have "j \<notin> set js" "0 \<le> j" using Cons.prems by auto
    then show ?thesis
      using cells [OF that] one [OF that] by (auto simp: nat_eq_iff)
  qed
  with m' step show ?case by simp
qed

lemma evaporate_row_full:
  assumes "wf_grid cfg m" "0 \<le> i" "i < width cfg"
  shows "\<exists>m'. foldE (\<lambda>j m. evaporate_cell cfg i j m) (py_range 0 (height cfg)) m = Inr m' \<and>
    wf_grid cfg m' \<and>
    (\<forall>r < nat (width cfg). \<forall>c < nat (height cfg).
       m' ! r ! c = (if r = nat i then evaporated cfg (m ! r ! c) else m ! r ! c))"
proof -
  have "\<forall>j\<in>set (py_range 0 (height cfg)). 0 \<le> j \<and> j < height cfg"
    by (simp add: set_py_range)
  from evaporate_row [OF assms distinct_py_range this]
  show ?thesis by (auto simp: set_py_range)
qed

text \<open>The outer loop over the rows \<open>is\<close>.\<close>

lemma evaporate_rows:
  assumes "wf_grid cfg m" "distinct is" "\<forall>i\<in>set is. 0 \<le> i \<and> i < width cfg"
  shows "\<exists>m'. foldE (\<lambda>i m. foldE (\<lambda>j m. evaporate_cell cfg i j m) (py_range 0 (height cfg)) m) is m
      = Inr m' \<and> wf_grid cfg m' \<and>
    (\<forall>r < nat (width cfg). \<forall>c < nat (height cfg).
       m' ! r ! c = (if int r \<in> set is then evaporated cfg (m ! r ! c) else m ! r ! c))"
  using assms
proof (induction "is" arbitrary: m)
  case Nil
  then show ?case by simp
next
  case (Cons i "is")
  have i: "0 \<le> i" "i < width cfg" "i \<notin> set is"
    using Cons.prems by auto
  from evaporate_row_full [OF Cons.prems(1) i(1,2)] obtain m1 where
    m1: "foldE (\<lambda>j m. evaporate_cell cfg i j m) (py_range 0 (height cfg)) m = Inr m1"
      "wf_grid cfg m1"
    and c1: "\<And>r c. r < nat (width cfg) \<Longrightarrow> c < nat (height cfg) \<Longrightarrow>
       m1 ! r ! c = (if r = nat i then evaporated cfg (m ! r ! c) else m ! r ! c)"
    by auto
  from Cons.IH [OF m1(2)] Cons.prems obtain m' where
    m': "foldE (\<lambda>i m. foldE (\<lambda>j m. evaporate_cell cfg i j m) (py_range 0 (height cfg)) m) is m1
      = Inr m'" "wf_grid cfg m'"
    and c': "\<And>r c. r < nat (width cfg) \<Longrightarrow> c < nat (height cfg) \<Longrightarrow>
       m' ! r ! c = (if int r \<in> set is then evaporated cfg (m1 ! r ! c) else m1 ! r ! c)"
    by auto
  have "m' ! r ! c = (if int r \<in> set (i # is) then evaporated cfg (m ! r ! c) else m ! r ! c)"
    if "r < nat (width cfg)" "c < nat (height cfg)" for r c
    using c' [OF that] c1 [OF that] i by (auto simp: nat_eq_iff)
  with m1 m' show ?case by simp
qed

text \<open>
  On a grid of the configured shape the two loops of \<open>evaporate_map\<close> return the grid
  with \<open>evaporated\<close> applied to every cell.
\<close>

lemma evaporate_map_cells:
  assumes "wf_grid cfg m"
  shows "evaporate_map cfg m = Inr (map (map (evaporated cfg)) m)"
proof -
  have "\<forall>i\<in>set (py_range 0 (width cfg)). 0 \<le> i \<and> i < width cfg"
    by (simp add: set_py_range)
  from evaporate_rows [OF assms distinct_py_range this] obtain m' where
    m': "evaporate_map cfg m = Inr m'" "wf_grid cfg m'"
    and cells0: "\<And>r c. r < nat (width cfg) \<Longrightarrow> c < nat (height cfg) \<Longrightarrow>
       m' ! r ! c = (if int r \<in> set (py_range 0 (width cfg)) then evaporated cfg (m ! r ! c)
                     else m ! r ! c)"
    unfolding evaporate_map_def by blast
  have cells: "m' ! r ! c = evaporated cfg (m ! r ! c)"
    if "r < nat (width cfg)" "c < nat (height cfg)" for r c
  proof -
    from that(1) have "int r < width cfg" by linarith
    then show ?thesis using cells0 [OF that] by (simp add: set_py_range)
  qed
  have "m' = map (map (evaporated cfg)) m"
  proof (rule nth_equalityI)
    show "length m' = length (map (map (evaporated cfg)) m)"
      using m'(2) assms by (simp add: wf_grid_def)
  next
    fix r assume "r < length m'"
    then have r: "r < nat (width cfg)" "r < length m" "r < length m'"
      using m'(2) assms by (simp_all add: wf_grid_def)
    have "m' ! r = map (evaporated cfg) (m ! r)"
    proof (rule nth_equalityI)
      show "length (m' ! r) = length (map (evaporated cfg) (m ! r))"
        using wf_grid_row [OF m'(2) r(3)] wf_grid_row [OF assms r(2)] by simp
    next
      fix c assume "c < length (m' ! r)"
      then have c: "c < nat (height cfg)" "c < length (m ! r)"
        using wf_grid_row [OF m'(2) r(3)] wf_grid_row [OF assms r(2)] by simp_all
      then show "m' ! r ! c = map (evaporated cfg) (m ! r) ! c"
        using cells [OF r(1) c(1)] by simp
    qed
    then show "m' ! r = map (map (evaporated cfg)) m ! r"
      using r by simp
  qed
  with m' show ?thesis by simp
qed

lemma wf_grid_map: "wf_grid cfg m \<Longrightarrow> wf_grid cfg (map (map f) m)"
  by (simp add: wf_grid_def list_all_length)

text \<open>
  C5: on a grid of the configured shape \<open>evaporate_map\<close> returns the grid in which every
  cell \<open>v\<close> has become \<open>max 0 (v - evaporateSpeed * deltaTime)\<close>, a function of that cell
  alone; so every cell of the result is at least 0.
\<close>

theorem evaporate_map_nonneg:
  assumes "wf_grid cfg m"
  shows "\<exists>m'. evaporate_map cfg m = Inr m' \<and>
    m' = map (map (\<lambda>v. max 0 (v - evaporateSpeed cfg * deltaTime cfg))) m \<and>
    (\<forall>row\<in>set m'. \<forall>v\<in>set row. 0 \<le> v)"
proof -
  have "evaporated cfg = (\<lambda>v. max 0 (v - evaporateSpeed cfg * deltaTime cfg))"
    by (simp add: evaporated_def fun_eq_iff)
  then show ?thesis
    using evaporate_map_cells [OF assms] by auto
qed

theorem evaporate_map_nonneg_witness:
  "wf_grid small_config [[1, 0, 0], [0, 1 / 20, - 3], [0, 0, 1 / 200]] \<and>
   evaporate_map small_config [[1, 0, 0], [0, 1 / 20, - 3], [0, 0, 1 / 200]] =
     Inr [[99 / 100, 0, 0], [0, 1 / 25, 0], [0, 0, 0]]"
proof -
  have h: "wf_grid small_config [[1, 0, 0], [0, 1 / 20, - 3], [0, 0, 1 / 200]]"
    by (simp add: small_config_def wf_grid_def)
  show ?thesis
    using h evaporate_map_nonneg [OF h] by (simp add: small_config_def)
qed

subsection \<open>The main loop\<close>

text \<open>
  C4: the order within one iteration of the main loop. With no agent left, the grid is
  diffused and the diffused grid is evaporated. With agents left, the first agent of the
  list is updated on the grid as it stands, and the rest of the iteration, the other agents
  and then diffusion and evaporation, starts from the grid that holds its deposit. The
  update of an agent is the move, the deposit into the cell of the moved agent, and
  \<open>steer\<close> on the grid after the deposit, in this order.
\<close>

theorem run_step_order:
  "run_step gf cfg ([], m, g) =
     (case evaporate_map cfg (gf (diffuseFaktor cfg) m) of
        Inl e \<Rightarrow> Inl e
      | Inr m2 \<Rightarrow> Inr ([], m2, g)) \<and>
   run_step gf cfg (a # as, m, g) =
     (case update_agent cfg m a g of
        Inl e \<Rightarrow> Inl e
      | Inr (a', m', g') \<Rightarrow>
          (case run_step gf cfg (as, m', g') of
             Inl e \<Rightarrow> Inl e
           | Inr (as', m2, g2) \<Rightarrow> Inr (a' # as', m2, g2))) \<and>
   update_agent cfg m a g =
     (case set2 m (fst (cell (fst (move cfg a g)))) (snd (cell (fst (move cfg a g)))) 1 of
        Inl e \<Rightarrow> Inl e
      | Inr m' \<Rightarrow>
          (case steer cfg m' (fst (move cfg a g)) (snd (move cfg a g)) of
             Inl e \<Rightarrow> Inl e
           | Inr (a', g') \<Rightarrow> Inr (a', m', g')))"
  by (simp add: run_step_def diffuse_def update_agent_def split_beta
      split: sum.splits prod.splits)

lemma update_agents_wf:
  assumes "0 < width cfg" "0 < height cfg" "wf_grid cfg m"
  shows "\<exists>as' m' g'. update_agents cfg m as g = Inr (as', m', g') \<and> wf_grid cfg m' \<and>
    length as' = length as"
  using assms(3)
proof (induction as arbitrary: m g)
  case Nil
  then show ?case by simp
next
  case (Cons a as)
  from update_agent_wf [OF Cons.prems assms(1,2)] obtain a' m1 g1 where
    u: "update_agent cfg m a g = Inr (a', m1, g1)" and wf1: "wf_grid cfg m1"
    by blast
  from Cons.IH [OF wf1] obtain as' m' g' where
    "update_agents cfg m1 as g1 = Inr (as', m', g')" "wf_grid cfg m'" "length as' = length as"
    by blast
  with u show ?case by simp
qed

lemma run_step_wf:
  assumes "0 < width cfg" "0 < height cfg" "wf_grid cfg m"
    and gf: "keeps_shape gf cfg"
  shows "\<exists>as' m' g'. run_step gf cfg (as, m, g) = Inr (as', m', g') \<and> wf_grid cfg m' \<and>
    length as' = length as"
proof -
  from update_agents_wf [OF assms(1-3)] obtain as' m1 g' where
    u: "update_agents cfg m as g = Inr (as', m1, g')" "wf_grid cfg m1" "length as' = length as"
    by blast
  have wf2: "wf_grid cfg (diffuse gf cfg m1)"
    using gf u(2) by (simp add: diffuse_def keeps_shape_def)
  have "evaporate_map cfg (diffuse gf cfg m1) = Inr (map (map (evaporated cfg)) (diffuse gf cfg m1))"
    using wf2 by (rule evaporate_map_cells)
  moreover have "wf_grid cfg (map (map (evaporated cfg)) (diffuse gf cfg m1))"
    using wf2 by (rule wf_grid_map)
  ultimately show ?thesis
    using u by (simp add: run_step_def)
qed

lemma run_steps_wf:
  assumes "0 < width cfg" "0 < height cfg" "wf_grid cfg m"
    and gf: "keeps_shape gf cfg"
  shows "\<exists>ss. run_steps gf cfg k (as, m, g) = Inr ss \<and> length ss = k"
  using assms(3)
proof (induction k arbitrary: as m g)
  case 0
  then show ?case by simp
next
  case (Suc k)
  from run_step_wf [OF assms(1,2) Suc.prems gf] obtain as' m' g' where
    s: "run_step gf cfg (as, m, g) = Inr (as', m', g')" "wf_grid cfg m'"
    by blast
  from Suc.IH [OF s(2)] obtain ss where
    "run_steps gf cfg k (as', m', g') = Inr ss" "length ss = k"
    by blast
  with s show ?case by simp
qed

lemma wf_grid_zeros: "wf_grid cfg (replicate (nat (width cfg)) (replicate (nat (height cfg)) 0))"
  by (simp add: wf_grid_def list_all_length)

lemma init_agents_length: "length (fst (init_agents cfg n g)) = n"
  by (induction n arbitrary: g) (simp_all add: split_beta)

lemma initialize_Inr:
  assumes "0 \<le> width cfg" "0 \<le> height cfg"
  shows "\<exists>as g'. initialize cfg g =
      Inr (as, replicate (nat (width cfg)) (replicate (nat (height cfg)) 0), g') \<and>
    length as = nat (nrAgents cfg)"
  using assms by (simp add: initialize_def np_zeros_def split_beta init_agents_length)

lemma initialize_Inl:
  "initialize cfg g = Inl e \<longleftrightarrow> (width cfg < 0 \<or> height cfg < 0) \<and> e = ValueError"
  by (auto simp: initialize_def np_zeros_def split_beta)

text \<open>
  C9 does not hold as stated: a configuration with no agent, a negative sensor size and
  negative evaporation rate, turn speed and diffusion strength is initialised without an
  error.
\<close>

theorem initialize_unchecked_counterexample:
  "nrAgents unchecked_config \<le> 0 \<and> sensorSize unchecked_config < 0 \<and>
   evaporateSpeed unchecked_config < 0 \<and> turnSpeed unchecked_config < 0 \<and>
   diffuseFaktor unchecked_config < 0 \<and>
   initialize unchecked_config half_rng = Inr ([], zero_grid, half_rng)"
  by (simp add: unchecked_config_def initialize_def np_zeros_def zero_grid_def
      numeral_3_eq_3)

text \<open>
  C9, amended: the source checks none of its parameters. \<open>initialize\<close> never fails with
  \<open>InvalidConfiguration\<close>; it fails exactly when \<open>width\<close> or \<open>height\<close> is negative, with
  the \<open>ValueError\<close> of \<^verbatim>\<open>np.zeros\<close>; otherwise it returns the grid of zeros and
  \<open>nrAgents\<close> agents, none when \<open>nrAgents\<close> is not positive. When \<open>width\<close> and \<open>height\<close>
  are positive and the blur keeps the shape of the grid, \<open>construct\<close> returns the states
  after all \<open>N\<close> iterations, whatever the other parameters: no iteration fails.
\<close>

theorem initialize_unchecked:
  "initialize cfg g \<noteq> Inl InvalidConfiguration \<and>
   (initialize cfg g = Inl ValueError \<longleftrightarrow> width cfg < 0 \<or> height cfg < 0) \<and>
   (0 \<le> width cfg \<and> 0 \<le> height cfg \<longrightarrow>
    (\<exists>as g'. initialize cfg g =
        Inr (as, replicate (nat (width cfg)) (replicate (nat (height cfg)) 0), g') \<and>
      length as = nat (nrAgents cfg))) \<and>
   (0 < width cfg \<and> 0 < height cfg \<and> keeps_shape gf cfg \<longrightarrow>
    (\<exists>ss. construct gf cfg g = Inr ss \<and> length ss = nat (N cfg)))"
proof (intro conjI impI)
  show "initialize cfg g \<noteq> Inl InvalidConfiguration"
    by (simp add: initialize_Inl)
  show "initialize cfg g = Inl ValueError \<longleftrightarrow> width cfg < 0 \<or> height cfg < 0"
    by (simp add: initialize_Inl)
next
  assume "0 \<le> width cfg \<and> 0 \<le> height cfg"
  then have "0 \<le> width cfg" "0 \<le> height cfg"
    by simp_all
  then show "\<exists>as g'. initialize cfg g =
        Inr (as, replicate (nat (width cfg)) (replicate (nat (height cfg)) 0), g') \<and>
      length as = nat (nrAgents cfg)"
    by (rule initialize_Inr)
next
  assume h: "0 < width cfg \<and> 0 < height cfg \<and> keeps_shape gf cfg"
  then have pos: "0 < width cfg" "0 < height cfg" and gf: "keeps_shape gf cfg"
    by simp_all
  from pos initialize_Inr [of cfg g] obtain as g' where
    i: "initialize cfg g =
      Inr (as, replicate (nat (width cfg)) (replicate (nat (height cfg)) 0), g')"
    by force
  from run_steps_wf [OF pos wf_grid_zeros gf] obtain ss where
    "run_steps gf cfg (nat (N cfg))
       (as, replicate (nat (width cfg)) (replicate (nat (height cfg)) 0), g') = Inr ss"
    "length ss = nat (N cfg)"
    by blast
  with i show "\<exists>ss. construct gf cfg g = Inr ss \<and> length ss = nat (N cfg)"
    by (simp add: construct_def)
qed

theorem initialize_unchecked_witness:
  "0 < width small_config \<and> 0 < height small_config \<and>
   keeps_shape (\<lambda>sigma m. m) small_config \<and>
   (\<exists>as g'. initialize small_config half_rng = Inr (as, zero_grid, g') \<and> length as = 2) \<and>
   (\<exists>ss. construct (\<lambda>sigma m. m) small_config half_rng = Inr ss \<and> length ss = 2) \<and>
   width (small_config\<lparr>width := - 1\<rparr>) < 0 \<and>
   initialize (small_config\<lparr>width := - 1\<rparr>) half_rng = Inl ValueError"
proof -
  have h: "0 < width small_config \<and> 0 < height small_config \<and>
    keeps_shape (\<lambda>sigma m. m) small_config"
    by (simp add: small_config_def keeps_shape_def)
  have n: "nat (N small_config) = 2" "nat (nrAgents small_config) = 2"
    "replicate (nat (width small_config)) (replicate (nat (height small_config)) 0) = zero_grid"
    by (simp_all add: small_config_def zero_grid_def numeral_3_eq_3)
  have w: "width (small_config\<lparr>width := - 1\<rparr>) < 0"
    by simp
  show ?thesis
    using h w initialize_unchecked [of small_config half_rng "\<lambda>sigma m. m"]
      initialize_unchecked [of "small_config\<lparr>width := - 1\<rparr>" half_rng "\<lambda>sigma m. m"]
    by (simp add: n)
qed

subsection \<open>Evaporation alone\<close>






text \<open>
  The values that the source gives to its parameters: the grid is not empty, the step of
  an evaporation is positive, and the number of evaporations that take a cell from 1 to 0
  is 100.
\<close>

lemma source_config_values:
  "width source_config = 200 \<and> height source_config = 355 \<and>
   evaporateSpeed source_config * deltaTime source_config = 1 / 100 \<and>
   nat \<lceil>1 / (evaporateSpeed source_config * deltaTime source_config)\<rceil> = 100"
  by (simp add: source_config_def py_int_def)

subsection \<open>Dependence on the generator\<close>

lemma np_random_agree:
  assumes "agree k g1 g2" "cursor g1 < k"
  shows "fst (np_random g1) = fst (np_random g2)"
    and "agree k (snd (np_random g1)) (snd (np_random g2))"
    and "cursor (snd (np_random g1)) = Suc (cursor g1)"
  using assms by (simp_all add: agree_def np_random_def)

lemma move_agree:
  assumes "agree k g1 g2" "cursor g1 < k"
  shows "fst (move cfg a g1) = fst (move cfg a g2)"
    and "agree k (snd (move cfg a g1)) (snd (move cfg a g2))"
    and "cursor (snd (move cfg a g1)) \<le> Suc (cursor g1)"
  using np_random_agree [OF assms] assms(1)
  by (simp_all add: move_def Let_def split_beta)

lemma steer_agree:
  assumes "agree k g1 g2" "cursor g1 < k"
  shows "rel_sum (=) (rel_prod (=) (\<lambda>h1 h2. agree k h1 h2 \<and> cursor h1 = Suc (cursor g1)))
    (steer cfg m a g1) (steer cfg m a g2)"
  using np_random_agree [OF assms]
  by (simp add: steer_def split_beta split: sum.splits)

lemma update_agent_agree:
  assumes "agree k g1 g2" "cursor g1 + 2 \<le> k"
  shows "rel_sum (=) (rel_prod (=) (rel_prod (=)
      (\<lambda>h1 h2. agree k h1 h2 \<and> cursor h1 \<le> cursor g1 + 2)))
    (update_agent cfg m a g1) (update_agent cfg m a g2)"
proof -
  have lt: "cursor g1 < k" using assms(2) by simp
  note mv = move_agree [OF assms(1) lt, of cfg a]
  let ?a1 = "fst (move cfg a g1)"
  let ?h1 = "snd (move cfg a g1)" and ?h2 = "snd (move cfg a g2)"
  have lt': "cursor ?h1 < k" using mv(3) assms(2) by simp
  show ?thesis
  proof (cases "set2 m (fst (cell ?a1)) (snd (cell ?a1)) 1")
    case (Inl e)
    then show ?thesis
      using mv(1) by (simp add: update_agent_def split_beta)
  next
    case (Inr m')
    from steer_agree [OF mv(2) lt', of cfg m' ?a1] mv(3)
    have "rel_sum (=) (rel_prod (=) (\<lambda>h1 h2. agree k h1 h2 \<and> cursor h1 \<le> cursor g1 + 2))
      (steer cfg m' ?a1 ?h1) (steer cfg m' ?a1 ?h2)"
      by (auto elim!: rel_sum.cases intro!: rel_sum.intros)
    then show ?thesis
      using mv(1) Inr
      by (auto simp: update_agent_def split_beta elim!: rel_sum.cases split: sum.splits)
  qed
qed


lemma same_outcomeE:
  assumes "rel_sum (=) (rel_prod (=) (rel_prod (=) P)) r1 r2"
  obtains (err) e where "r1 = Inl e" "r2 = Inl e"
  | (ok) x y h1 h2 where "r1 = Inr (x, y, h1)" "r2 = Inr (x, y, h2)" "P h1 h2"
  using assms by (auto elim!: rel_sum.cases)

lemma update_agents_length:
  "update_agents cfg m as g = Inr (as', m', g') \<Longrightarrow> length as' = length as"
  by (induction as arbitrary: m g as' m' g') (auto split: sum.splits)

lemma update_agents_agree:
  assumes "agree k g1 g2" "cursor g1 + 2 * length as \<le> k"
  shows "rel_sum (=) (rel_prod (=) (rel_prod (=)
      (\<lambda>h1 h2. agree k h1 h2 \<and> cursor h1 \<le> cursor g1 + 2 * length as)))
    (update_agents cfg m as g1) (update_agents cfg m as g2)"
  using assms
proof (induction as arbitrary: m g1 g2)
  case Nil
  then show ?case by simp
next
  case (Cons a as)
  have "cursor g1 + 2 \<le> k" using Cons.prems(2) by simp
  from update_agent_agree [OF Cons.prems(1) this, of cfg m a]
  show ?case
  proof (cases rule: same_outcomeE)
    case (err e)
    then show ?thesis by simp
  next
    case (ok a' m' h1 h2)
    then have h: "agree k h1 h2" "cursor h1 + 2 * length as \<le> k"
      using Cons.prems(2) by simp_all
    from Cons.IH [OF h, of m'] show ?thesis
    proof (cases rule: same_outcomeE)
      case (err e)
      with ok(1,2) show ?thesis by simp
    next
      case inner: (ok as' m'' k1 k2)
      with ok show ?thesis by simp
    qed
  qed
qed

lemma run_step_agree:
  assumes "agree k g1 g2" "cursor g1 + 2 * length as \<le> k"
  shows "rel_sum (=) (rel_prod (=) (rel_prod (=)
      (\<lambda>h1 h2. agree k h1 h2 \<and> cursor h1 \<le> cursor g1 + 2 * length as)))
    (run_step gf cfg (as, m, g1)) (run_step gf cfg (as, m, g2))"
  using update_agents_agree [OF assms, of cfg m]
proof (cases rule: same_outcomeE)
  case (err e)
  then show ?thesis by (simp add: run_step_def)
next
  case (ok as' m1 h1 h2)
  then show ?thesis
    by (simp add: run_step_def split: sum.splits)
qed

lemma run_step_length:
  "run_step gf cfg (as, m, g) = Inr (as', m', g') \<Longrightarrow> length as' = length as"
  by (auto simp: run_step_def split: sum.splits dest: update_agents_length)

lemma run_steps_agree:
  assumes "agree k g1 g2" "cursor g1 + 2 * length as * n \<le> k"
  shows "snapshots (run_steps gf cfg n (as, m, g1)) = snapshots (run_steps gf cfg n (as, m, g2))"
  using assms
proof (induction n arbitrary: as m g1 g2)
  case 0
  then show ?case by simp
next
  case (Suc n)
  have "cursor g1 + 2 * length as \<le> k" using Suc.prems(2) by simp
  from run_step_agree [OF Suc.prems(1) this, of gf cfg m]
  show ?case
  proof (cases rule: same_outcomeE)
    case (err e)
    then show ?thesis by (simp add: snapshots_def)
  next
    case (ok as' m' h1 h2)
    have "length as' = length as"
      using ok(1) by (rule run_step_length)
    then have "cursor h1 + 2 * length as' * n \<le> k"
      using ok(3) Suc.prems(2) by simp
    with ok(3) have "snapshots (run_steps gf cfg n (as', m', h1)) =
        snapshots (run_steps gf cfg n (as', m', h2))"
      by (intro Suc.IH) simp_all
    then show ?thesis
      using ok(1,2) by (auto simp: snapshots_def split: sum.splits)
  qed
qed

lemma init_agents_agree:
  assumes "agree k g1 g2" "cursor g1 + 3 * n \<le> k"
  shows "fst (init_agents cfg n g1) = fst (init_agents cfg n g2)
    \<and> agree k (snd (init_agents cfg n g1)) (snd (init_agents cfg n g2))
    \<and> cursor (snd (init_agents cfg n g1)) = cursor g1 + 3 * n"
  using assms
proof (induction n arbitrary: g1 g2)
  case 0
  then show ?case by simp
next
  case (Suc n)
  let ?a1 = "snd (np_random g1)" and ?a2 = "snd (np_random g2)"
  let ?b1 = "snd (np_random ?a1)" and ?b2 = "snd (np_random ?a2)"
  let ?c1 = "snd (np_random ?b1)" and ?c2 = "snd (np_random ?b2)"
  have 1: "cursor g1 < k" using Suc.prems(2) by simp
  note r1 = np_random_agree [OF Suc.prems(1) 1]
  have 2: "cursor ?a1 < k" using Suc.prems(2) r1(3) by simp
  note r2 = np_random_agree [OF r1(2) 2]
  have 3: "cursor ?b1 < k" using Suc.prems(2) r1(3) r2(3) by simp
  note r3 = np_random_agree [OF r2(2) 3]
  have "cursor ?c1 + 3 * n \<le> k" using Suc.prems(2) r1(3) r2(3) r3(3) by simp
  from Suc.IH [OF r3(2) this] r1 r2 r3 show ?case
    by (simp add: split_beta)
qed


text \<open>
  Two runs whose generators stand at the same place and return the same values for the
  draws a run can take, three for each agent at the start and at most two for each agent
  in each iteration, fail alike or go through the same agents and grids.
\<close>

lemma construct_agree:
  assumes "cursor g1 = cursor g2"
    and "\<forall>i < cursor g1 + 3 * nat (nrAgents cfg) + 2 * nat (nrAgents cfg) * nat (N cfg).
           tape g1 i = tape g2 i"
  shows "snapshots (construct gf cfg g1) = snapshots (construct gf cfg g2)"
proof (cases "np_zeros (width cfg) (height cfg)")
  case (Inl e)
  then show ?thesis by (simp add: construct_def initialize_def)
next
  case (Inr m)
  let ?n = "nat (nrAgents cfg)"
  let ?k = "cursor g1 + 3 * ?n + 2 * ?n * nat (N cfg)"
  have a: "agree ?k g1 g2"
    using assms by (simp add: agree_def)
  have "cursor g1 + 3 * ?n \<le> ?k" by simp
  from init_agents_agree [OF a this, of cfg]
  have as: "fst (init_agents cfg ?n g1) = fst (init_agents cfg ?n g2)"
    and g: "agree ?k (snd (init_agents cfg ?n g1)) (snd (init_agents cfg ?n g2))"
    and c: "cursor (snd (init_agents cfg ?n g1)) = cursor g1 + 3 * ?n"
    by simp_all
  have "cursor (snd (init_agents cfg ?n g1))
      + 2 * length (fst (init_agents cfg ?n g1)) * nat (N cfg) \<le> ?k"
    by (simp add: c init_agents_length)
  from run_steps_agree [OF g this, of gf cfg m]
  show ?thesis
    using Inr as by (simp add: construct_def initialize_def split_beta)
qed

lemmas run_eval =
  construct_def initialize_def np_zeros_def run_step_def diffuse_def no_blur_def
  evaporate_map_def evaporate_cell_def snapshots_def one_step_config_def zero_rng_def
  late_rng_def numeral_3_eq_3

text \<open>
  C2 does not hold as stated: the program takes no seed. It draws from the generator as
  it finds it, and two runs of one configuration that find it in different states go
  through different agents and grids.
\<close>

theorem construct_ambient_counterexample:
  "snapshots (construct no_blur one_step_config zero_rng) =
     Inr [([\<lparr>pos = (1, 0), angle = 0\<rparr>], [[0, 0, 0], [99 / 100, 0, 0], [0, 0, 0]])] \<and>
   snapshots (construct no_blur one_step_config late_rng) =
     Inr [([\<lparr>pos = (5 / 2, 0), angle = 0\<rparr>], [[0, 0, 0], [0, 0, 0], [99 / 100, 0, 0]])] \<and>
   snapshots (construct no_blur one_step_config zero_rng) \<noteq>
     snapshots (construct no_blur one_step_config late_rng)"
  by (simp add: run_eval small_eval)

subsection \<open>The draws of a run\<close>

lemma update_agents_draws:
  assumes "update_agents cfg m as g = Inr (as', m', g')"
  shows "length as' = length as \<and> tape g' = tape g \<and>
    cursor g + length as \<le> cursor g' \<and> cursor g' \<le> cursor g + 2 * length as"
  using assms
proof (induction as arbitrary: m g as' m' g')
  case Nil
  then show ?case by simp
next
  case (Cons a as)
  from Cons.prems obtain a1 m1 g1 as1 where
    u: "update_agent cfg m a g = Inr (a1, m1, g1)"
    and r: "update_agents cfg m1 as g1 = Inr (as1, m', g')"
    and as': "as' = a1 # as1"
    by (auto split: sum.splits)
  from update_agent_draws [OF u] have "tape g1 = tape g"
    "cursor g + 1 \<le> cursor g1" "cursor g1 \<le> cursor g + 2"
    by simp_all
  with Cons.IH [OF r] as' show ?case by simp
qed

lemma run_step_draws:
  assumes "run_step gf cfg (as, m, g) = Inr (as', m', g')"
  shows "length as' = length as \<and> tape g' = tape g \<and>
    cursor g + length as \<le> cursor g' \<and> cursor g' \<le> cursor g + 2 * length as"
proof -
  from assms obtain m1 where "update_agents cfg m as g = Inr (as', m1, g')"
    by (auto simp: run_step_def split: sum.splits)
  then show ?thesis by (rule update_agents_draws)
qed

lemma run_steps_draws:
  assumes "run_steps gf cfg k (as, m, g) = Inr ss"
  shows "length ss = k \<and> (\<forall>i<k. drawn as g i (ss ! i))"
  using assms
proof (induction k arbitrary: as m g ss)
  case 0
  then show ?case by simp
next
  case (Suc k)
  from Suc.prems obtain as1 m1 g1 ss1 where
    s: "run_step gf cfg (as, m, g) = Inr (as1, m1, g1)"
    and r: "run_steps gf cfg k (as1, m1, g1) = Inr ss1"
    and ss: "ss = (as1, m1, g1) # ss1"
    by (auto split: sum.splits)
  note d = run_step_draws [OF s]
  from Suc.IH [OF r] have len: "length ss1 = k" and rest: "\<And>i. i < k \<Longrightarrow> drawn as1 g1 i (ss1 ! i)"
    by simp_all
  have "drawn as g i (ss ! i)" if "i < Suc k" for i
  proof (cases i)
    case 0
    with d ss show ?thesis by (simp add: drawn_def)
  next
    case (Suc j)
    with that have "j < k" by simp
    from rest [OF this] d show ?thesis
      by (simp add: drawn_def ss Suc algebra_simps)
  qed
  with len ss show ?case by simp
qed

lemma init_agents_draws:
  "tape (snd (init_agents cfg n g)) = tape g \<and>
   cursor (snd (init_agents cfg n g)) = cursor g + 3 * n"
  by (induction n arbitrary: g) (simp_all add: split_beta np_random_def)

lemma construct_drawn:
  assumes "construct gf cfg g = Inr ss"
  shows "length ss = nat (N cfg) \<and>
    (\<forall>i < nat (N cfg).
       length (fst (ss ! i)) = nat (nrAgents cfg) \<and> tape (snd (snd (ss ! i))) = tape g \<and>
       cursor g + 3 * nat (nrAgents cfg) + Suc i * nat (nrAgents cfg)
         \<le> cursor (snd (snd (ss ! i))) \<and>
       cursor (snd (snd (ss ! i)))
         \<le> cursor g + 3 * nat (nrAgents cfg) + 2 * Suc i * nat (nrAgents cfg))"
proof -
  let ?n = "nat (nrAgents cfg)"
  let ?as = "fst (init_agents cfg ?n g)" and ?g = "snd (init_agents cfg ?n g)"
  from assms obtain m where
    r: "run_steps gf cfg (nat (N cfg)) (?as, m, ?g) = Inr ss"
    by (auto simp: construct_def initialize_def split_beta split: sum.splits)
  from run_steps_draws [OF r] init_agents_draws [of cfg ?n g] init_agents_length [of cfg ?n g]
  show ?thesis
    by (simp add: drawn_def)
qed

text \<open>
  C2, amended: a run is a function of the configuration, the blur and the values that the
  generator returns. It takes three draws for each agent at the start and one or two for
  each agent in each iteration, all from the one generator. Two runs whose generators
  stand at the same place and return the same values for the draws a run can take fail
  alike or go through the same sequence of agents (positions and headings) and grids.
\<close>

theorem construct_draws:
  assumes "cursor g1 = cursor g2"
    and "\<forall>i < cursor g1 + 3 * nat (nrAgents cfg) + 2 * nat (nrAgents cfg) * nat (N cfg).
           tape g1 i = tape g2 i"
  shows "snapshots (construct gf cfg g1) = snapshots (construct gf cfg g2) \<and>
    (\<forall>ss. construct gf cfg g1 = Inr ss \<longrightarrow>
       length ss = nat (N cfg) \<and>
       (\<forall>i < nat (N cfg).
          length (fst (ss ! i)) = nat (nrAgents cfg) \<and> tape (snd (snd (ss ! i))) = tape g1 \<and>
          cursor g1 + 3 * nat (nrAgents cfg) + Suc i * nat (nrAgents cfg)
            \<le> cursor (snd (snd (ss ! i))) \<and>
          cursor (snd (snd (ss ! i)))
            \<le> cursor g1 + 3 * nat (nrAgents cfg) + 2 * Suc i * nat (nrAgents cfg)))"
  using construct_agree [OF assms] construct_drawn [of gf cfg g1]
  by blast

theorem construct_draws_witness:
  "cursor zero_rng = cursor split_rng \<and>
   cursor zero_rng + 3 * nat (nrAgents one_step_config)
     + 2 * nat (nrAgents one_step_config) * nat (N one_step_config) = 5 \<and>
   tape zero_rng 4 = tape split_rng 4 \<and> tape zero_rng 5 \<noteq> tape split_rng 5 \<and>
   snapshots (construct no_blur one_step_config zero_rng) =
     snapshots (construct no_blur one_step_config split_rng) \<and>
   construct no_blur one_step_config zero_rng =
     Inr [([\<lparr>pos = (1, 0), angle = 0\<rparr>], [[0, 0, 0], [99 / 100, 0, 0], [0, 0, 0]],
           \<lparr>tape = tape zero_rng, cursor = 4\<rparr>)]"
proof -
  have h1: "cursor zero_rng = cursor split_rng"
    by (simp add: zero_rng_def split_rng_def)
  have k: "cursor zero_rng + 3 * nat (nrAgents one_step_config)
      + 2 * nat (nrAgents one_step_config) * nat (N one_step_config) = 5"
    by (simp add: zero_rng_def one_step_config_def small_config_def)
  have h2: "\<forall>i < cursor zero_rng + 3 * nat (nrAgents one_step_config)
      + 2 * nat (nrAgents one_step_config) * nat (N one_step_config).
        tape zero_rng i = tape split_rng i"
    unfolding k by (simp add: zero_rng_def split_rng_def)
  have t: "tape zero_rng 4 = tape split_rng 4" "tape zero_rng 5 \<noteq> tape split_rng 5"
    by (simp_all add: zero_rng_def split_rng_def)
  have r: "construct no_blur one_step_config zero_rng =
     Inr [([\<lparr>pos = (1, 0), angle = 0\<rparr>], [[0, 0, 0], [99 / 100, 0, 0], [0, 0, 0]],
           \<lparr>tape = tape zero_rng, cursor = 4\<rparr>)]"
    by (simp add: run_eval small_eval)
  show ?thesis
    using h1 k t r construct_draws [OF h1 h2, of no_blur] by simp
qed

end
